theory Spec2Isabelle
  imports Complex_Main "HOL-Library.Multiset" "HOL-Library.Sublist"
begin

section \<open>Errors\<close>

text \<open>
  Go's \<open>error\<close> values, as far as the pipeline builds or inspects them: the two
  errors a \<open>context.Context\<close> reports once it is done, an error that only carries a
  message (\<open>errors.New\<close>, \<open>fmt.Errorf\<close> without \<open>%w\<close>), and the wrapper
  \<open>fmt.Errorf\<close> builds for \<open>%w\<close>, which keeps its message and the wrapped cause.
\<close>

datatype error =
    Canceled
  | DeadlineExceeded
  | errorString string
  | wrapError string error

fun Error_of :: "error \<Rightarrow> string" where
  "Error_of Canceled = ''context canceled''"
| "Error_of DeadlineExceeded = ''context deadline exceeded''"
| "Error_of (errorString s) = s"
| "Error_of (wrapError msg err) = msg"

fun Unwrap :: "error \<Rightarrow> error option" where
  "Unwrap (wrapError msg err) = Some err"
| "Unwrap e = None"

text \<open>\<open>fmt.Errorf(tag + "%w", err)\<close>.\<close>

definition Errorf_w :: "string \<Rightarrow> error \<Rightarrow> error" where
  "Errorf_w tag err = wrapError (tag @ Error_of err) err"

section \<open>Data model\<close>

record Job =
  URL :: string
  Project :: string
  Version :: string

record Article =
  URL :: string
  Title :: string
  Content :: string
  Excerpt :: string

record AnalysisResult =
  Score :: int
  Summary :: "string list"
  Category :: string

text \<open>A nil pointer or a nil error is \<open>None\<close>.\<close>

record Result =
  Job :: Job
  Article :: "Article option"
  Analysis :: "AnalysisResult option"
  Error :: "error option"

text \<open>
  The fetcher and the LLM provider reach the network, and both receive the context.
  Their answer to a call depends on the state of that outside world when the call is
  made; the type \<open>'w\<close> stands for it, and every call names the world it runs in.
  Both are taken to answer every call: a call that never returns is outside the model.
\<close>

record 'w Processor =
  fetcher :: "'w \<Rightarrow> string \<Rightarrow> error + Article"
  llmProvider :: "'w \<Rightarrow> string \<Rightarrow> string list \<Rightarrow> error + AnalysisResult"
  interests :: "string list"
  maxWorkers :: int
  rateLimitTick :: int

section \<open>processJob\<close>

text \<open>The calls \<open>processJob\<close> makes to its collaborators, in order.\<close>

datatype call = FetchCall string | AnalyzeCall string "string list"

text \<open>
  \<open>processJob\<close> fetches in the world \<open>w1\<close> and analyses in the world \<open>w2\<close>. It
  returns the \<open>Result\<close> together with the calls it made.
\<close>

definition processJob :: "'w Processor \<Rightarrow> 'w \<Rightarrow> 'w \<Rightarrow> Job \<Rightarrow> Result \<times> call list" where
  "processJob p w1 w2 job =
     (let result = \<lparr>Job = job, Article = None, Analysis = None, Error = None\<rparr> in
      case fetcher p w1 (Job.URL job) of
        Inl err \<Rightarrow>
          (result\<lparr>Error := Some (Errorf_w ''fetch failed: '' err)\<rparr>,
           [FetchCall (Job.URL job)])
      | Inr article \<Rightarrow>
          (let result = result\<lparr>Article := Some article\<rparr> in
           case llmProvider p w2 (Content article) (interests p) of
             Inl err \<Rightarrow>
               (result\<lparr>Error := Some (Errorf_w ''analysis failed: '' err)\<rparr>,
                [FetchCall (Job.URL job), AnalyzeCall (Content article) (interests p)])
           | Inr analysis \<Rightarrow>
               (result\<lparr>Analysis := Some analysis\<rparr>,
                [FetchCall (Job.URL job), AnalyzeCall (Content article) (interests p)])))"

section \<open>parseAnalysisResult\<close>

definition TrimPrefix :: "string \<Rightarrow> string \<Rightarrow> string" where
  "TrimPrefix s pre =
     (if take (length pre) s = pre then drop (length pre) s else s)"

definition TrimSuffix :: "string \<Rightarrow> string \<Rightarrow> string" where
  "TrimSuffix s suf =
     (if length suf \<le> length s \<and> drop (length s - length suf) s = suf
      then take (length s - length suf) s else s)"

text \<open>
  \<open>strings.TrimSpace\<close> (Unicode white space over UTF-8) and \<open>json.Unmarshal\<close> into
  a fresh \<open>AnalysisResult\<close> belong to Go's standard library. Both are parameters
  here, so what is proved holds whatever they compute.
\<close>

definition cleanResponse :: "(string \<Rightarrow> string) \<Rightarrow> string \<Rightarrow> string" where
  "cleanResponse TrimSpace content =
     TrimSpace (TrimSuffix (TrimPrefix (TrimPrefix (TrimSpace content) ''```json'') ''```'') ''```'')"

text \<open>The default category: the UTF-8 bytes of the three-character Japanese label.\<close>

definition uncategorized :: string where
  "uncategorized =
     [CHR 0xE6, CHR 0x9C, CHR 0xAA, CHR 0xE5, CHR 0x88, CHR 0x86, CHR 0xE9, CHR 0xA1, CHR 0x9E]"

definition parseAnalysisResult ::
  "(string \<Rightarrow> string) \<Rightarrow> (string \<Rightarrow> error + AnalysisResult) \<Rightarrow> string \<Rightarrow> error + AnalysisResult" where
  "parseAnalysisResult TrimSpace Unmarshal content0 =
     (let content = cleanResponse TrimSpace content0 in
      case Unmarshal content of
        Inl err \<Rightarrow>
          Inl (wrapError (''failed to parse LLM response as JSON: '' @ Error_of err
                 @ [CHR 0x0A] @ ''Response was: '' @ content) err)
      | Inr result0 \<Rightarrow>
          (let result = (if Score result0 < 0 then result0\<lparr>Score := 0\<rparr> else result0);
               result = (if Score result > 100 then result\<lparr>Score := 100\<rparr> else result)
           in if length (Summary result) = 0
              then Inl (errorString ''LLM returned empty summary'')
              else Inr (if Category result = [] then result\<lparr>Category := uncategorized\<rparr>
                        else result)))"

section \<open>Configuration\<close>

text \<open>
  \<open>rate_limit_per_second\<close> is a \<open>float64\<close>. The model reads it as the real number a
  finite \<open>float64\<close> denotes; \<open>Validate\<close> only compares it with zero.
\<close>

record Config =
  LLMProvider :: string
  APIKey :: string
  Model :: string
  Interests :: "string list"
  Threshold :: int
  OllamaURL :: string
  MaxWorkers :: int
  RateLimit :: real

definition ProviderOpenAI :: string where
  "ProviderOpenAI = ''openai''"

definition ProviderOllama :: string where
  "ProviderOllama = ''ollama''"

text \<open>
  \<open>Validate\<close> changes the configuration in place and returns an error or nil: the
  model returns the error, or the configuration as \<open>Validate\<close> leaves it. No field
  is written before the last error return.
\<close>

definition Validate :: "Config \<Rightarrow> error + Config" where
  "Validate c =
     (if LLMProvider c \<noteq> ProviderOpenAI \<and> LLMProvider c \<noteq> ProviderOllama then
        Inl (errorString (''invalid llm_provider: '' @ LLMProvider c
               @ '' (must be 'openai' or 'ollama')''))
      else if LLMProvider c = ProviderOpenAI \<and> APIKey c = [] then
        Inl (errorString ''api_key is required for OpenAI provider'')
      else if Model c = [] then
        Inl (errorString ''model must be specified'')
      else if length (Interests c) = 0 then
        Inl (errorString ''at least one interest must be specified'')
      else if Threshold c < 0 \<or> Threshold c > 100 then
        Inl (errorString ''threshold must be between 0 and 100'')
      else
        (let c = (if MaxWorkers c < 1 then c\<lparr>MaxWorkers := 5\<rparr> else c);
             c = (if RateLimit c \<le> 0 then c\<lparr>RateLimit := 10\<rparr> else c)
         in Inr c))"

section \<open>New\<close>

text \<open>
  \<open>time.Second\<close>, in nanoseconds, the unit of \<open>time.Duration\<close>.
\<close>

definition Second :: int where
  "Second = 1000000000"

text \<open>
  The rate is a \<open>float64\<close>, read as the real number it denotes; a rate that is not a
  finite number is outside the model. Two operations on it are left to the platform
  and are parameters of \<open>New\<close>. \<open>fdiv x y\<close> is the \<open>float64\<close> division: the
  \<open>float64\<close> next to \<open>x / y\<close>, or \<open>None\<close> when the result is not a finite number
  (\<open>y = 0\<close>, overflow). \<open>ovf\<close> is the \<open>int64\<close> a conversion yields when the
  \<open>float64\<close> is not finite or its integer part does not fit: Go leaves that value to
  the implementation. Within the range, the conversion drops the fraction.
\<close>

definition to_Duration :: "int \<Rightarrow> real option \<Rightarrow> int" where
  "to_Duration ovf x =
     (case x of
        None \<Rightarrow> ovf
      | Some v \<Rightarrow>
          (let t = (if 0 \<le> v then \<lfloor>v\<rfloor> else \<lceil>v\<rceil>)
           in if - (2 ^ 63) \<le> t \<and> t < 2 ^ 63 then t else ovf))"

text \<open>Go's integer division rounds toward zero.\<close>

definition quo :: "int \<Rightarrow> int \<Rightarrow> int" where
  "quo a b = sgn a * sgn b * (\<bar>a\<bar> div \<bar>b\<bar>)"

text \<open>
  \<open>New\<close> has no error result. The one way it can fail is the run-time panic of an
  integer division by zero, which needs a conversion out of range that yields 0.
\<close>

definition New ::
  "(real \<Rightarrow> real \<Rightarrow> real option) \<Rightarrow> int \<Rightarrow>
   ('w \<Rightarrow> string \<Rightarrow> error + Article) \<Rightarrow>
   ('w \<Rightarrow> string \<Rightarrow> string list \<Rightarrow> error + AnalysisResult) \<Rightarrow>
   string list \<Rightarrow> int \<Rightarrow> real \<Rightarrow> string + 'w Processor" where
  "New fdiv ovf f provider ints n rateLimit =
     (if rateLimit \<ge> 1 then
        (let d = to_Duration ovf (Some rateLimit) in
         if d = 0 then Inl ''runtime error: integer divide by zero''
         else Inr \<lparr>fetcher = f, llmProvider = provider, interests = ints,
                   maxWorkers = n, rateLimitTick = quo Second d\<rparr>)
      else
        Inr \<lparr>fetcher = f, llmProvider = provider, interests = ints,
             maxWorkers = n,
             rateLimitTick = to_Duration ovf (fdiv (real_of_int Second) rateLimit)\<rparr>)"

section \<open>Channels\<close>

text \<open>
  A Go channel: the values queued in it (oldest first), its capacity and whether it
  has been closed. A send completes when the channel is open and has room; a receive
  takes the oldest value; a receiver sees the end of the channel when it is closed and
  empty. A channel of capacity 0 has no room, and its send waits for a receiver: in a
  call of \<open>Process\<close> only \<open>rateLimitedJobs\<close> can have capacity 0, with
  \<open>maxWorkers = 0\<close>, and then there is no worker to receive from it.
\<close>

record 'a chan =
  buf :: "'a list"
  cap :: nat
  closed :: bool

definition make_chan :: "nat \<Rightarrow> 'a chan" where
  "make_chan n = \<lparr>buf = [], cap = n, closed = False\<rparr>"

definition can_send :: "'a chan \<Rightarrow> bool" where
  "can_send c = (\<not> closed c \<and> length (buf c) < cap c)"

definition send :: "'a \<Rightarrow> 'a chan \<Rightarrow> 'a chan" where
  "send v c = c\<lparr>buf := buf c @ [v]\<rparr>"

definition at_end :: "'a chan \<Rightarrow> bool" where
  "at_end c = (buf c = [] \<and> closed c)"

definition close_chan :: "'a chan \<Rightarrow> 'a chan" where
  "close_chan c = c\<lparr>closed := True\<rparr>"

section \<open>Process: the goroutines and their steps\<close>

text \<open>
  Where the rate limiter goroutine stands: at the head of its \<open>range\<close> loop, in the
  \<open>select\<close> with the job it took, in the send of that job to \<open>rateLimitedJobs\<close>, or
  returned (its deferred \<open>close(rateLimitedJobs)\<close> done).
\<close>

datatype limiter_pc = L_Range | L_Select Job | L_Send Job | L_Done

text \<open>
  Where a worker stands: at the head of its \<open>range\<close> loop, at the cancellation check
  with the job it took, inside \<open>processJob\<close>, in the send of a Result after which it
  loops (\<open>W_Emit\<close>) or returns (\<open>W_Abort\<close>), or returned.
\<close>

datatype worker_pc =
    W_Range
  | W_Check Job
  | W_Process Job
  | W_Emit Result
  | W_Abort Result
  | W_Done

text \<open>
  The state shared by the goroutines of one \<open>Process\<close> call. \<open>ctx_err\<close> is
  \<open>ctx.Err()\<close>: \<open>None\<close> until the context is done. \<open>tick\<close> says that the ticker's
  channel \<open>rateLimiter.C\<close> holds a tick. \<open>sender\<close> is the goroutine that sends the
  jobs: the jobs it has still to send, or \<open>None\<close> once it has closed \<open>jobChan\<close> and
  returned. \<open>results\<close>, \<open>completed\<close> and \<open>returned\<close> belong to the collecting loop of
  \<open>Process\<close> itself, and \<open>user\<close> is whatever the progress callback acts on.
  \<open>admitted\<close> is not a variable of the program: it records every job sent to
  \<open>rateLimitedJobs\<close>, in the order of the sends.
\<close>

record 'u state =
  ctx_err :: "error option"
  tick :: bool
  jobChan :: "Job chan"
  rateLimitedJobs :: "Job chan"
  resultChan :: "Result chan"
  sender :: "Job list option"
  limiter :: limiter_pc
  workers :: "worker_pc list"
  results :: "Result list"
  completed :: int
  returned :: bool
  user :: 'u
  admitted :: "Job list"

type_synonym 'u ProcessCallback = "int \<Rightarrow> int \<Rightarrow> Result \<Rightarrow> 'u \<Rightarrow> 'u"

text \<open>
  One step of one goroutine, or of the surroundings: \<open>Cancel err\<close> is the context
  becoming done with \<open>err\<close>, \<open>Tick\<close> the ticker putting a tick into its channel (a tick
  that finds the channel full is dropped and changes nothing). \<open>WorkerProcess i w1 w2\<close>
  is worker \<open>i\<close> running \<open>processJob\<close>, its fetch in the world \<open>w1\<close> and its analysis
  in the world \<open>w2\<close>. A goroutine's return, with its deferred \<open>close\<close> or
  \<open>wg.Done()\<close>, belongs to its last step. A context that is done before the call is
  a schedule that starts with \<open>Cancel\<close>.
\<close>

datatype 'w action =
    Cancel error
  | Tick
  | SenderSend
  | SenderCancel
  | SenderClose
  | LimiterRecv
  | LimiterEnd
  | LimiterCancel
  | LimiterTick
  | LimiterSend
  | WorkerRecv nat
  | WorkerEnd nat
  | WorkerCheck nat
  | WorkerProcess nat 'w 'w
  | WorkerSend nat
  | CloseResults
  | Collect
  | Return

text \<open>
  \<open>step p callback jobs a s\<close> is the state after the action \<open>a\<close>, or \<open>None\<close> when
  \<open>a\<close> cannot happen in \<open>s\<close> (the goroutine is elsewhere, or blocked). The actions
  and the statements of \<open>Process\<close> and \<open>worker\<close> they stand for:
  \<^item> \<open>SenderSend\<close>: \<open>case jobChan <- job\<close>; \<open>SenderCancel\<close>: \<open>case <-ctx.Done()\<close> with
    \<open>close(jobChan); return\<close>; \<open>SenderClose\<close>: the \<open>close(jobChan)\<close> after the loop.
  \<^item> \<open>LimiterRecv\<close>: \<open>for job := range jobChan\<close> taking a job; \<open>LimiterEnd\<close>: the same
    loop finding \<open>jobChan\<close> closed and empty; \<open>LimiterCancel\<close>: \<open>case <-ctx.Done():
    return\<close>; \<open>LimiterTick\<close>: \<open>case <-rateLimiter.C\<close>; \<open>LimiterSend\<close>:
    \<open>rateLimitedJobs <- job\<close>.
  \<^item> \<open>WorkerRecv i\<close> and \<open>WorkerEnd i\<close>: \<open>for job := range jobs\<close> taking a job, or
    finding the channel closed and empty; \<open>WorkerCheck i\<close>: the \<open>select\<close> on
    \<open>ctx.Done()\<close> with its \<open>default\<close>; \<open>WorkerProcess i\<close>: \<open>p.processJob(ctx, job)\<close>;
    \<open>WorkerSend i\<close>: \<open>results <- ...\<close>, of either Result.
  \<^item> \<open>CloseResults\<close>: \<open>wg.Wait(); close(resultChan)\<close>; \<open>Collect\<close>: one round of
    \<open>for result := range resultChan\<close>; \<open>Return\<close>: that loop finding \<open>resultChan\<close>
    closed and empty, and \<open>return results\<close>.
  Where a \<open>select\<close> has two cases ready, either action can happen.
\<close>

fun step ::
  "'w Processor \<Rightarrow> 'u ProcessCallback option \<Rightarrow> Job list \<Rightarrow> 'w action \<Rightarrow> 'u state \<Rightarrow> 'u state option" where
  "step p callback jobs (Cancel err) s =
     (if ctx_err s = None then Some (s\<lparr>ctx_err := Some err\<rparr>) else None)"
| "step p callback jobs Tick s =
     (if tick s then None else Some (s\<lparr>tick := True\<rparr>))"
| "step p callback jobs SenderSend s =
     (case sender s of
        Some (job # rest) \<Rightarrow>
          if can_send (jobChan s)
          then Some (s\<lparr>jobChan := send job (jobChan s), sender := Some rest\<rparr>)
          else None
      | _ \<Rightarrow> None)"
| "step p callback jobs SenderCancel s =
     (case sender s of
        Some (job # rest) \<Rightarrow>
          if ctx_err s \<noteq> None
          then Some (s\<lparr>jobChan := close_chan (jobChan s), sender := None\<rparr>)
          else None
      | _ \<Rightarrow> None)"
| "step p callback jobs SenderClose s =
     (case sender s of
        Some [] \<Rightarrow> Some (s\<lparr>jobChan := close_chan (jobChan s), sender := None\<rparr>)
      | _ \<Rightarrow> None)"
| "step p callback jobs LimiterRecv s =
     (if limiter s = L_Range then
        (case buf (jobChan s) of
           job # rest \<Rightarrow>
             Some (s\<lparr>jobChan := (jobChan s)\<lparr>buf := rest\<rparr>, limiter := L_Select job\<rparr>)
         | [] \<Rightarrow> None)
      else None)"
| "step p callback jobs LimiterEnd s =
     (if limiter s = L_Range \<and> at_end (jobChan s)
      then Some (s\<lparr>rateLimitedJobs := close_chan (rateLimitedJobs s), limiter := L_Done\<rparr>)
      else None)"
| "step p callback jobs LimiterCancel s =
     (case limiter s of
        L_Select job \<Rightarrow>
          if ctx_err s \<noteq> None
          then Some (s\<lparr>rateLimitedJobs := close_chan (rateLimitedJobs s), limiter := L_Done\<rparr>)
          else None
      | _ \<Rightarrow> None)"
| "step p callback jobs LimiterTick s =
     (case limiter s of
        L_Select job \<Rightarrow>
          if tick s then Some (s\<lparr>tick := False, limiter := L_Send job\<rparr>) else None
      | _ \<Rightarrow> None)"
| "step p callback jobs LimiterSend s =
     (case limiter s of
        L_Send job \<Rightarrow>
          if can_send (rateLimitedJobs s)
          then Some (s\<lparr>rateLimitedJobs := send job (rateLimitedJobs s), limiter := L_Range,
                       admitted := admitted s @ [job]\<rparr>)
          else None
      | _ \<Rightarrow> None)"
| "step p callback jobs (WorkerRecv i) s =
     (if i < length (workers s) \<and> workers s ! i = W_Range then
        (case buf (rateLimitedJobs s) of
           job # rest \<Rightarrow>
             Some (s\<lparr>rateLimitedJobs := (rateLimitedJobs s)\<lparr>buf := rest\<rparr>,
                     workers := (workers s)[i := W_Check job]\<rparr>)
         | [] \<Rightarrow> None)
      else None)"
| "step p callback jobs (WorkerEnd i) s =
     (if i < length (workers s) \<and> workers s ! i = W_Range \<and> at_end (rateLimitedJobs s)
      then Some (s\<lparr>workers := (workers s)[i := W_Done]\<rparr>)
      else None)"
| "step p callback jobs (WorkerCheck i) s =
     (if i < length (workers s) then
        (case workers s ! i of
           W_Check job \<Rightarrow>
             (case ctx_err s of
                Some err \<Rightarrow>
                  Some (s\<lparr>workers := (workers s)
                      [i := W_Abort \<lparr>Job = job, Article = None, Analysis = None, Error = Some err\<rparr>]\<rparr>)
              | None \<Rightarrow> Some (s\<lparr>workers := (workers s)[i := W_Process job]\<rparr>))
         | _ \<Rightarrow> None)
      else None)"
| "step p callback jobs (WorkerProcess i w1 w2) s =
     (if i < length (workers s) then
        (case workers s ! i of
           W_Process job \<Rightarrow>
             Some (s\<lparr>workers := (workers s)[i := W_Emit (fst (processJob p w1 w2 job))]\<rparr>)
         | _ \<Rightarrow> None)
      else None)"
| "step p callback jobs (WorkerSend i) s =
     (if i < length (workers s) then
        (case workers s ! i of
           W_Emit result \<Rightarrow>
             if can_send (resultChan s)
             then Some (s\<lparr>resultChan := send result (resultChan s),
                          workers := (workers s)[i := W_Range]\<rparr>)
             else None
         | W_Abort result \<Rightarrow>
             if can_send (resultChan s)
             then Some (s\<lparr>resultChan := send result (resultChan s),
                          workers := (workers s)[i := W_Done]\<rparr>)
             else None
         | _ \<Rightarrow> None)
      else None)"
| "step p callback jobs CloseResults s =
     (if list_all (\<lambda>w. w = W_Done) (workers s) \<and> \<not> closed (resultChan s)
      then Some (s\<lparr>resultChan := close_chan (resultChan s)\<rparr>)
      else None)"
| "step p callback jobs Collect s =
     (if returned s then None else
        (case buf (resultChan s) of
           result # rest \<Rightarrow>
             Some (s\<lparr>resultChan := (resultChan s)\<lparr>buf := rest\<rparr>,
                     completed := completed s + 1,
                     results := results s @ [result],
                     user := (case callback of
                                None \<Rightarrow> user s
                              | Some f \<Rightarrow> f (completed s + 1) (int (length jobs)) result (user s))\<rparr>)
         | [] \<Rightarrow> None))"
| "step p callback jobs Return s =
     (if \<not> returned s \<and> at_end (resultChan s) then Some (s\<lparr>returned := True\<rparr>) else None)"

text \<open>A schedule is a list of actions; \<open>run\<close> performs them in order.\<close>

fun run ::
  "'w Processor \<Rightarrow> 'u ProcessCallback option \<Rightarrow> Job list \<Rightarrow> 'w action list \<Rightarrow> 'u state \<Rightarrow> 'u state option" where
  "run p callback jobs [] s = Some s"
| "run p callback jobs (a # as) s =
     (case step p callback jobs a s of
        None \<Rightarrow> None
      | Some s' \<Rightarrow> run p callback jobs as s')"

text \<open>
  The state when \<open>Process\<close> has made its channels and started its goroutines: one
  rate limiter, \<open>maxWorkers\<close> workers, one sender, and the goroutine that closes
  \<open>resultChan\<close> after \<open>wg.Wait()\<close>.
\<close>

definition init :: "'w Processor \<Rightarrow> Job list \<Rightarrow> 'u \<Rightarrow> 'u state" where
  "init p jobs u =
     \<lparr>ctx_err = None, tick = False,
      jobChan = make_chan (length jobs),
      rateLimitedJobs = make_chan (nat (maxWorkers p)),
      resultChan = make_chan (length jobs),
      sender = Some jobs, limiter = L_Range,
      workers = replicate (nat (maxWorkers p)) W_Range,
      results = [], completed = 0, returned = False, user = u, admitted = []\<rparr>"

text \<open>
  \<open>make(chan T, n)\<close> panics with \<open>makechan: size out of range\<close> when \<open>n\<close> is negative
  or \<open>n\<close> elements of \<open>T\<close> are more than the runtime allocates. The largest capacity
  for which \<open>make\<close> returns a channel of Jobs, and of Results, depends on the platform:
  both are parameters. Past that test the memory for the channels and for the
  goroutines is taken to be there.
\<close>

record limits =
  job_chan_max :: nat
  result_chan_max :: nat

text \<open>
  What a call of \<open>Process\<close> has come to under a schedule: it has returned the results
  (leaving the callback's world in the given state), it has panicked before starting a
  goroutine (\<open>make\<close> refuses a capacity, \<open>time.NewTicker\<close> an interval that is not
  positive), it is still running, or the list of actions is no schedule of the
  program. The tests come in the order of the statements: \<open>jobChan\<close>, \<open>resultChan\<close>,
  the ticker, \<open>rateLimitedJobs\<close>.
\<close>

datatype 'u outcome =
    Returns "Result list" 'u
  | Panics string
  | Running "'u state"
  | NoSchedule

definition Process ::
  "limits \<Rightarrow> 'w Processor \<Rightarrow> 'u ProcessCallback option \<Rightarrow> Job list \<Rightarrow> 'u \<Rightarrow> 'w action list
   \<Rightarrow> 'u outcome" where
  "Process rt p callback jobs u schedule =
     (if length jobs = 0 then Returns [] u
      else if job_chan_max rt < length jobs then Panics ''makechan: size out of range''
      else if result_chan_max rt < length jobs then Panics ''makechan: size out of range''
      else if rateLimitTick p \<le> 0 then Panics ''non-positive interval for NewTicker''
      else if maxWorkers p < 0 \<or> int (job_chan_max rt) < maxWorkers p
        then Panics ''makechan: size out of range''
      else (case run p callback jobs schedule (init p jobs u) of
              None \<Rightarrow> NoSchedule
            | Some s \<Rightarrow> if returned s then Returns (results s) (user s) else Running s))"

section \<open>What the proofs observe\<close>

text \<open>The jobs the sender has still to send.\<close>

definition remaining :: "'u state \<Rightarrow> Job list" where
  "remaining s = (case sender s of Some js \<Rightarrow> js | None \<Rightarrow> [])"

text \<open>The job the rate limiter holds, and the job a worker holds (as a job or in its Result).\<close>

fun held_limiter :: "limiter_pc \<Rightarrow> Job list" where
  "held_limiter (L_Select job) = [job]"
| "held_limiter (L_Send job) = [job]"
| "held_limiter L_Range = []"
| "held_limiter L_Done = []"

fun held_worker :: "worker_pc \<Rightarrow> Job list" where
  "held_worker (W_Check job) = [job]"
| "held_worker (W_Process job) = [job]"
| "held_worker (W_Emit result) = [Job result]"
| "held_worker (W_Abort result) = [Job result]"
| "held_worker W_Range = []"
| "held_worker W_Done = []"

text \<open>
  All jobs that are somewhere in the pipeline, each as often as it is there: not yet
  sent, in a channel, held by a goroutine, or in a Result that has been sent or
  collected.
\<close>

definition in_flight :: "'u state \<Rightarrow> Job multiset" where
  "in_flight s =
     mset (remaining s) + mset (buf (jobChan s)) + mset (held_limiter (limiter s))
     + mset (buf (rateLimitedJobs s)) + mset (concat (map held_worker (workers s)))
     + mset (map Job (buf (resultChan s))) + mset (map Job (results s))"

text \<open>Every Result sent to \<open>resultChan\<close> so far, in the order of the sends.\<close>

definition emitted :: "'u state \<Rightarrow> Result list" where
  "emitted s = results s @ buf (resultChan s)"

text \<open>The actions that are steps of worker \<open>i\<close>.\<close>

fun by_worker :: "nat \<Rightarrow> 'w action \<Rightarrow> bool" where
  "by_worker i (WorkerRecv k) = (k = i)"
| "by_worker i (WorkerEnd k) = (k = i)"
| "by_worker i (WorkerCheck k) = (k = i)"
| "by_worker i (WorkerProcess k w1 w2) = (k = i)"
| "by_worker i (WorkerSend k) = (k = i)"
| "by_worker i a = False"

text \<open>The Result a worker builds when it finds the context done: \<open>Result{Job: job, Error: ctx.Err()}\<close>.\<close>

definition cancel_result :: "Job \<Rightarrow> error \<Rightarrow> Result" where
  "cancel_result job err = \<lparr>Job = job, Article = None, Analysis = None, Error = Some err\<rparr>"




section \<open>Invariants and the measure of progress\<close>

text \<open>
  What holds in every state a call can reach: the capacities and the number of workers
  are those \<open>Process\<close> chose; \<open>jobChan\<close> is closed exactly when the sender has
  returned and \<open>rateLimitedJobs\<close> exactly when the rate limiter has; \<open>resultChan\<close> is
  closed only after all workers have returned; \<open>Process\<close> has returned only at the end
  of \<open>resultChan\<close>; and without cancellation no worker holds a cancellation Result.
\<close>

definition shape :: "'w Processor \<Rightarrow> Job list \<Rightarrow> 'u state \<Rightarrow> bool" where
  "shape p jobs s =
     (cap (jobChan s) = length jobs \<and> cap (rateLimitedJobs s) = nat (maxWorkers p)
      \<and> cap (resultChan s) = length jobs \<and> length (workers s) = nat (maxWorkers p)
      \<and> (closed (jobChan s) = (sender s = None))
      \<and> (closed (rateLimitedJobs s) = (limiter s = L_Done))
      \<and> (closed (resultChan s) \<longrightarrow> list_all (\<lambda>w. w = W_Done) (workers s))
      \<and> (returned s \<longrightarrow> at_end (resultChan s))
      \<and> (ctx_err s = None \<longrightarrow> list_all (\<lambda>w. \<forall>r. w \<noteq> W_Abort r) (workers s)))"

text \<open>
  What holds as long as the context is not cancelled: the rate limiter has returned only
  at the end of \<open>jobChan\<close>, a worker has returned only at the end of
  \<open>rateLimitedJobs\<close>, the jobs in flight are the jobs of the list, and the jobs not yet
  admitted follow the admitted ones in the order of the list.
\<close>

definition flow :: "Job list \<Rightarrow> 'u state \<Rightarrow> bool" where
  "flow jobs s =
     (ctx_err s = None \<longrightarrow>
        (limiter s = L_Done \<longrightarrow> at_end (jobChan s))
      \<and> (W_Done \<in> set (workers s) \<longrightarrow> at_end (rateLimitedJobs s))
      \<and> in_flight s = mset jobs
      \<and> admitted s @ held_limiter (limiter s) @ buf (jobChan s) @ remaining s = jobs)"

text \<open>
  What holds of the order also under cancellation: the admitted jobs are a prefix of the
  list, and while the rate limiter runs, so are they together with the jobs on their
  way to it.
\<close>

definition in_order :: "Job list \<Rightarrow> 'u state \<Rightarrow> bool" where
  "in_order jobs s =
     (prefix (admitted s) jobs
      \<and> (limiter s \<noteq> L_Done \<longrightarrow>
           prefix (admitted s @ held_limiter (limiter s) @ buf (jobChan s) @ remaining s) jobs))"

text \<open>The three together hold at the start and are kept by every step.\<close>

definition invariant :: "'w Processor \<Rightarrow> Job list \<Rightarrow> 'u state \<Rightarrow> bool" where
  "invariant p jobs s = (shape p jobs s \<and> flow jobs s \<and> in_order jobs s)"




section \<open>Example values\<close>

text \<open>
  A processor whose fetcher succeeds in the world \<open>True\<close> and fails in the world
  \<open>False\<close>, one job, and a schedule that takes the job through the pipeline.
\<close>

definition example_processor :: "bool Processor" where
  "example_processor =
     \<lparr>fetcher = (\<lambda>w url. if w then Inr \<lparr>Article.URL = url, Title = ''t'', Content = ''c'', Excerpt = ''e''\<rparr>
                          else Inl (errorString ''HTTP 404'')),
      llmProvider = (\<lambda>w text ints. Inr \<lparr>Score = 80, Summary = [''s''], Category = ''Go''\<rparr>),
      interests = [''Go''], maxWorkers = 1, rateLimitTick = 100000000\<rparr>"

definition example_limits :: limits where
  "example_limits = \<lparr>job_chan_max = 2 ^ 42, result_chan_max = 2 ^ 41\<rparr>"

definition example_job :: Job where
  "example_job = \<lparr>Job.URL = ''https://a'', Project = [], Version = []\<rparr>"


definition example_result :: Result where
  "example_result =
     \<lparr>Job = example_job,
      Article = Some \<lparr>Article.URL = ''https://a'', Title = ''t'', Content = ''c'', Excerpt = ''e''\<rparr>,
      Analysis = Some \<lparr>Score = 80, Summary = [''s''], Category = ''Go''\<rparr>,
      Error = None\<rparr>"

definition example_schedule :: "bool action list" where
  "example_schedule =
     [SenderSend, SenderClose, LimiterRecv, Tick, LimiterTick, LimiterSend, WorkerRecv 0,
      WorkerCheck 0, WorkerProcess 0 True True, WorkerSend 0, LimiterEnd, WorkerEnd 0,
      CloseResults, Collect, Return]"


















text \<open>
  A schedule that brings the one worker to its cancellation check and then cancels the
  context; the state it ends in; and the state after the worker's check and send.
\<close>

definition before_check :: "bool action list" where
  "before_check =
     [SenderSend, LimiterRecv, Tick, LimiterTick, LimiterSend, WorkerRecv 0, Cancel Canceled]"

definition checking_state :: "unit state" where
  "checking_state =
     \<lparr>ctx_err = Some Canceled, tick = False,
      jobChan = \<lparr>buf = [], cap = 1, closed = False\<rparr>,
      rateLimitedJobs = \<lparr>buf = [], cap = 1, closed = False\<rparr>,
      resultChan = \<lparr>buf = [], cap = 1, closed = False\<rparr>,
      sender = Some [], limiter = L_Range, workers = [W_Check example_job],
      results = [], completed = 0, returned = False, user = (), admitted = [example_job]\<rparr>"

definition aborted_state :: "unit state" where
  "aborted_state =
     checking_state
       \<lparr>resultChan := \<lparr>buf = [cancel_result example_job Canceled], cap = 1, closed = False\<rparr>,
        workers := [W_Done]\<rparr>"

text \<open>
  A division that is exact where the quotient is a \<open>float64\<close>, as \<open>10^9 / -1\<close> is; and
  a configuration that is valid but for its rate.
\<close>

definition exact_quotient :: "real \<Rightarrow> real \<Rightarrow> real option" where
  "exact_quotient x y = (if y = 0 then None else Some (x / y))"

definition example_config :: Config where
  "example_config =
     \<lparr>LLMProvider = ''ollama'', APIKey = [], Model = ''llama3'', Interests = [''Go''],
      Threshold = 70, OllamaURL = [], MaxWorkers = 5, RateLimit = 0\<rparr>"


section \<open>A single job\<close>

lemma Unwrap_Errorf_w: "Unwrap (Errorf_w tag err) = Some err"
  by (simp add: Errorf_w_def)

lemma Error_of_Errorf_w: "Error_of (Errorf_w tag err) = tag @ Error_of err"
  by (simp add: Errorf_w_def)

lemma job_processJob: "Job (fst (processJob p w1 w2 job)) = job"
  by (simp add: processJob_def Let_def split: sum.splits)

text \<open>
  C2. When the fetch fails with the error \<open>err\<close>, the Result of the job has no
  Article and no AnalysisResult, its error is the wrapper whose message starts with
  \<open>fetch failed: \<close> and whose cause is \<open>err\<close>, and the only call made is the fetch:
  the LLM provider is not invoked.
\<close>

theorem processJob_fetch_failed:
  assumes "fetcher p w1 (Job.URL job) = Inl err"
  shows "processJob p w1 w2 job =
           (\<lparr>Job = job, Article = None, Analysis = None,
             Error = Some (Errorf_w ''fetch failed: '' err)\<rparr>,
            [FetchCall (Job.URL job)])
         \<and> Unwrap (Errorf_w ''fetch failed: '' err) = Some err
         \<and> Error_of (Errorf_w ''fetch failed: '' err) = ''fetch failed: '' @ Error_of err
         \<and> (\<forall>text ints. AnalyzeCall text ints \<notin> set (snd (processJob p w1 w2 job)))"
  using assms by (simp add: processJob_def Unwrap_Errorf_w Error_of_Errorf_w)

theorem processJob_fetch_failed_witness:
  "processJob
     \<lparr>fetcher = (\<lambda>w url. if w then Inr \<lparr>Article.URL = url, Title = ''t'', Content = ''c'', Excerpt = ''e''\<rparr>
                          else Inl (errorString ''HTTP 404'')),
      llmProvider = (\<lambda>w text ints. Inr \<lparr>Score = 80, Summary = [''s''], Category = ''Go''\<rparr>),
      interests = [''Go''], maxWorkers = 2, rateLimitTick = 100000000\<rparr>
     False True \<lparr>Job.URL = ''https://a'', Project = [], Version = []\<rparr>
   = (\<lparr>Job = \<lparr>Job.URL = ''https://a'', Project = [], Version = []\<rparr>,
       Article = None, Analysis = None,
       Error = Some (wrapError ''fetch failed: HTTP 404'' (errorString ''HTTP 404''))\<rparr>,
      [FetchCall ''https://a''])"
  using processJob_fetch_failed
    [of "\<lparr>fetcher = (\<lambda>w url. if w then Inr \<lparr>Article.URL = url, Title = ''t'', Content = ''c'', Excerpt = ''e''\<rparr>
                          else Inl (errorString ''HTTP 404'')),
      llmProvider = (\<lambda>w text ints. Inr \<lparr>Score = 80, Summary = [''s''], Category = ''Go''\<rparr>),
      interests = [''Go''], maxWorkers = 2, rateLimitTick = 100000000\<rparr>"
     False "\<lparr>Job.URL = ''https://a'', Project = [], Version = []\<rparr>"
     "errorString ''HTTP 404''" True]
  by (simp add: Errorf_w_def)

text \<open>
  C3. When the fetch succeeds with \<open>article\<close> and the analysis fails with \<open>err\<close>,
  the Result carries \<open>article\<close>, has no AnalysisResult, and its error is the wrapper
  whose message starts with \<open>analysis failed: \<close> and whose cause is \<open>err\<close>.
\<close>

theorem processJob_analysis_failed:
  assumes "fetcher p w1 (Job.URL job) = Inr article"
    and "llmProvider p w2 (Content article) (interests p) = Inl err"
  shows "fst (processJob p w1 w2 job) =
           \<lparr>Job = job, Article = Some article, Analysis = None,
            Error = Some (Errorf_w ''analysis failed: '' err)\<rparr>
         \<and> Unwrap (Errorf_w ''analysis failed: '' err) = Some err
         \<and> Error_of (Errorf_w ''analysis failed: '' err) = ''analysis failed: '' @ Error_of err"
  using assms by (simp add: processJob_def Unwrap_Errorf_w Error_of_Errorf_w)

theorem processJob_analysis_failed_witness:
  "fst (processJob
     \<lparr>fetcher = (\<lambda>w url. Inr \<lparr>Article.URL = url, Title = ''t'', Content = ''c'', Excerpt = ''e''\<rparr>),
      llmProvider = (\<lambda>w text ints. if w then Inl (errorString ''no response from OpenAI'')
                          else Inr \<lparr>Score = 80, Summary = [''s''], Category = ''Go''\<rparr>),
      interests = [''Go''], maxWorkers = 2, rateLimitTick = 100000000\<rparr>
     False True \<lparr>Job.URL = ''https://a'', Project = [], Version = []\<rparr>)
   = \<lparr>Job = \<lparr>Job.URL = ''https://a'', Project = [], Version = []\<rparr>,
      Article = Some \<lparr>Article.URL = ''https://a'', Title = ''t'', Content = ''c'', Excerpt = ''e''\<rparr>,
      Analysis = None,
      Error = Some (wrapError ''analysis failed: no response from OpenAI''
                      (errorString ''no response from OpenAI''))\<rparr>"
  using processJob_analysis_failed
    [of "\<lparr>fetcher = (\<lambda>w url. Inr \<lparr>Article.URL = url, Title = ''t'', Content = ''c'', Excerpt = ''e''\<rparr>),
      llmProvider = (\<lambda>w text ints. if w then Inl (errorString ''no response from OpenAI'')
                          else Inr \<lparr>Score = 80, Summary = [''s''], Category = ''Go''\<rparr>),
      interests = [''Go''], maxWorkers = 2, rateLimitTick = 100000000\<rparr>"
     False "\<lparr>Job.URL = ''https://a'', Project = [], Version = []\<rparr>"
     "\<lparr>Article.URL = ''https://a'', Title = ''t'', Content = ''c'', Excerpt = ''e''\<rparr>"
     True "errorString ''no response from OpenAI''"]
  by (simp add: Errorf_w_def)

text \<open>
  C4. When the cleaned response parses as JSON into \<open>a\<close>: with an empty summary the
  parse is an error; otherwise an AnalysisResult is returned whose Score is that of
  \<open>a\<close> brought into the range from 0 to 100 (so 150 gives 100).
\<close>

theorem parseAnalysisResult_score:
  assumes "Unmarshal (cleanResponse TrimSpace content) = Inr a"
  shows "(Summary a = [] \<longrightarrow>
            parseAnalysisResult TrimSpace Unmarshal content
              = Inl (errorString ''LLM returned empty summary''))
       \<and> (Summary a \<noteq> [] \<longrightarrow>
            (\<exists>r. parseAnalysisResult TrimSpace Unmarshal content = Inr r
               \<and> Score r = (if Score a < 0 then 0 else if Score a > 100 then 100 else Score a)
               \<and> 0 \<le> Score r \<and> Score r \<le> 100))"
  using assms by (simp add: parseAnalysisResult_def Let_def)

theorem parseAnalysisResult_score_witness:
  "parseAnalysisResult (\<lambda>s. s)
     (\<lambda>s. if s = ''{}'' then Inr \<lparr>Score = 150, Summary = [''one point''], Category = ''Go''\<rparr>
           else Inl (errorString ''unexpected end of JSON input''))
     ''```json{}```''
   = Inr \<lparr>Score = 100, Summary = [''one point''], Category = ''Go''\<rparr>"
  using parseAnalysisResult_score
    [of "\<lambda>s. if s = ''{}'' then Inr \<lparr>Score = 150, Summary = [''one point''], Category = ''Go''\<rparr>
           else Inl (errorString ''unexpected end of JSON input'')"
      "\<lambda>s. s" "''```json{}```''" "\<lparr>Score = 150, Summary = [''one point''], Category = ''Go''\<rparr>"]
  by (simp add: cleanResponse_def TrimPrefix_def TrimSuffix_def parseAnalysisResult_def)

section \<open>The rate in the configuration and in New\<close>

text \<open>
  C5, as the code has it. A rate that is not positive is rejected nowhere.
  \<open>Validate\<close> reports the same error, or none, whatever the rate is; when it reports
  none it has replaced a rate that is not positive by 10. \<open>New\<close> returns a Processor
  for every rate below 1.
\<close>

theorem rate_not_rejected:
  "(\<forall>e. (Validate (c\<lparr>RateLimit := r\<rparr>) = Inl e) = (Validate c = Inl e))
   \<and> (\<forall>c'. Validate c = Inr c' \<longrightarrow>
         RateLimit c' = (if RateLimit c \<le> 0 then 10 else RateLimit c))
   \<and> (rateLimit < 1 \<longrightarrow>
         (\<exists>proc. New fdiv ovf f provider ints n rateLimit = Inr proc))"
  by (auto simp: Validate_def New_def Let_def)

theorem rate_not_rejected_witness:
  "Validate example_config = Inr (example_config\<lparr>RateLimit := 10\<rparr>)
   \<and> RateLimit example_config \<le> 0
   \<and> (\<exists>proc. New exact_quotient (- (2 ^ 63)) (fetcher example_processor)
         (llmProvider example_processor) [''Go''] 5 (- 1) = Inr proc)"
proof -
  have v: "Validate example_config = Inr (example_config\<lparr>RateLimit := 10\<rparr>)"
    by (simp add: Validate_def example_config_def ProviderOpenAI_def ProviderOllama_def)
  from rate_not_rejected [where c = example_config and r = 0 and rateLimit = "- 1"
      and fdiv = exact_quotient and ovf = "- (2 ^ 63)" and f = "fetcher example_processor"
      and provider = "llmProvider example_processor" and ints = "[''Go'']" and n = 5]
  have "\<exists>proc. New exact_quotient (- (2 ^ 63)) (fetcher example_processor)
         (llmProvider example_processor) [''Go''] 5 (- 1) = Inr proc" by simp
  with v show ?thesis by (simp add: example_config_def)
qed

text \<open>
  The claim C5 fails: with the rate \<open>-1\<close> the constructor returns a Processor, whose
  tick interval is minus one second, and it is \<open>Process\<close> that panics, at run time;
  and \<open>Validate\<close> accepts the rate 0.
\<close>

theorem rate_rejected_counterexample:
  "New exact_quotient (- (2 ^ 63)) (fetcher example_processor) (llmProvider example_processor)
       [''Go''] 5 (- 1)
     = Inr (example_processor\<lparr>maxWorkers := 5, rateLimitTick := - 1000000000\<rparr>)
   \<and> Process example_limits (example_processor\<lparr>maxWorkers := 5, rateLimitTick := - 1000000000\<rparr>)
       None [example_job] () []
     = Panics ''non-positive interval for NewTicker''
   \<and> Validate example_config = Inr (example_config\<lparr>RateLimit := 10\<rparr>)"
  by (simp add: New_def to_Duration_def exact_quotient_def Second_def example_processor_def
      Process_def example_job_def Validate_def example_config_def ProviderOpenAI_def
      ProviderOllama_def example_limits_def)

text \<open>
  The tick interval \<open>New\<close> computes for a rate of at least one per second that fits
  \<open>int64\<close>: a second divided by the whole part of the rate, in whole nanoseconds.
\<close>

lemma New_tick:
  assumes "1 \<le> rateLimit" and "rateLimit < 2 ^ 63"
  shows "New fdiv ovf f provider ints n rateLimit
         = Inr \<lparr>fetcher = f, llmProvider = provider, interests = ints, maxWorkers = n,
                rateLimitTick = Second div \<lfloor>rateLimit\<rfloor>\<rparr>"
proof -
  from assms(1) have p: "1 \<le> \<lfloor>rateLimit\<rfloor>" by linarith
  from assms(2) have "\<lfloor>rateLimit\<rfloor> < 2 ^ 63" by (simp add: floor_less_iff)
  with p assms(1) have "to_Duration ovf (Some rateLimit) = \<lfloor>rateLimit\<rfloor>"
    by (simp add: to_Duration_def Let_def)
  moreover from p have "quo Second \<lfloor>rateLimit\<rfloor> = Second div \<lfloor>rateLimit\<rfloor>"
    by (simp add: quo_def Second_def)
  moreover from p have "\<lfloor>rateLimit\<rfloor> \<noteq> 0" by linarith
  ultimately show ?thesis using assms(1) by (simp add: New_def Let_def)
qed

section \<open>The steps, case by case\<close>

lemmas chan_defs = can_send_def send_def at_end_def close_chan_def

text \<open>What a step is, read off \<open>step\<close>: one case for each way an action can happen.\<close>

lemma step_cases [consumes 1, case_names Cancel Tick SenderSend SenderCancel SenderClose
    LimiterRecv LimiterEnd LimiterCancel LimiterTick LimiterSend WorkerRecv WorkerEnd
    WorkerAbort WorkerStart WorkerProcess WorkerEmit WorkerLast CloseResults Collect Return]:
  assumes "step p cb jobs a s = Some s'"
  obtains
    (Cancel) err where "a = Cancel err" "ctx_err s = None" "s' = s\<lparr>ctx_err := Some err\<rparr>"
  | (Tick) "a = Tick" "\<not> tick s" "s' = s\<lparr>tick := True\<rparr>"
  | (SenderSend) job rest where "a = SenderSend" "sender s = Some (job # rest)"
      "can_send (jobChan s)"
      "s' = s\<lparr>jobChan := send job (jobChan s), sender := Some rest\<rparr>"
  | (SenderCancel) job rest where "a = SenderCancel" "sender s = Some (job # rest)"
      "ctx_err s \<noteq> None"
      "s' = s\<lparr>jobChan := close_chan (jobChan s), sender := None\<rparr>"
  | (SenderClose) "a = SenderClose" "sender s = Some []"
      "s' = s\<lparr>jobChan := close_chan (jobChan s), sender := None\<rparr>"
  | (LimiterRecv) job rest where "a = LimiterRecv" "limiter s = L_Range"
      "buf (jobChan s) = job # rest"
      "s' = s\<lparr>jobChan := (jobChan s)\<lparr>buf := rest\<rparr>, limiter := L_Select job\<rparr>"
  | (LimiterEnd) "a = LimiterEnd" "limiter s = L_Range" "at_end (jobChan s)"
      "s' = s\<lparr>rateLimitedJobs := close_chan (rateLimitedJobs s), limiter := L_Done\<rparr>"
  | (LimiterCancel) job where "a = LimiterCancel" "limiter s = L_Select job"
      "ctx_err s \<noteq> None"
      "s' = s\<lparr>rateLimitedJobs := close_chan (rateLimitedJobs s), limiter := L_Done\<rparr>"
  | (LimiterTick) job where "a = LimiterTick" "limiter s = L_Select job" "tick s"
      "s' = s\<lparr>tick := False, limiter := L_Send job\<rparr>"
  | (LimiterSend) job where "a = LimiterSend" "limiter s = L_Send job"
      "can_send (rateLimitedJobs s)"
      "s' = s\<lparr>rateLimitedJobs := send job (rateLimitedJobs s), limiter := L_Range,
               admitted := admitted s @ [job]\<rparr>"
  | (WorkerRecv) i job rest where "a = WorkerRecv i" "i < length (workers s)"
      "workers s ! i = W_Range" "buf (rateLimitedJobs s) = job # rest"
      "s' = s\<lparr>rateLimitedJobs := (rateLimitedJobs s)\<lparr>buf := rest\<rparr>,
               workers := (workers s)[i := W_Check job]\<rparr>"
  | (WorkerEnd) i where "a = WorkerEnd i" "i < length (workers s)"
      "workers s ! i = W_Range" "at_end (rateLimitedJobs s)"
      "s' = s\<lparr>workers := (workers s)[i := W_Done]\<rparr>"
  | (WorkerAbort) i job err where "a = WorkerCheck i" "i < length (workers s)"
      "workers s ! i = W_Check job" "ctx_err s = Some err"
      "s' = s\<lparr>workers := (workers s)
          [i := W_Abort \<lparr>Job = job, Article = None, Analysis = None, Error = Some err\<rparr>]\<rparr>"
  | (WorkerStart) i job where "a = WorkerCheck i" "i < length (workers s)"
      "workers s ! i = W_Check job" "ctx_err s = None"
      "s' = s\<lparr>workers := (workers s)[i := W_Process job]\<rparr>"
  | (WorkerProcess) i w1 w2 job where "a = WorkerProcess i w1 w2" "i < length (workers s)"
      "workers s ! i = W_Process job"
      "s' = s\<lparr>workers := (workers s)[i := W_Emit (fst (processJob p w1 w2 job))]\<rparr>"
  | (WorkerEmit) i result where "a = WorkerSend i" "i < length (workers s)"
      "workers s ! i = W_Emit result" "can_send (resultChan s)"
      "s' = s\<lparr>resultChan := send result (resultChan s), workers := (workers s)[i := W_Range]\<rparr>"
  | (WorkerLast) i result where "a = WorkerSend i" "i < length (workers s)"
      "workers s ! i = W_Abort result" "can_send (resultChan s)"
      "s' = s\<lparr>resultChan := send result (resultChan s), workers := (workers s)[i := W_Done]\<rparr>"
  | (CloseResults) "a = CloseResults" "list_all (\<lambda>w. w = W_Done) (workers s)"
      "\<not> closed (resultChan s)" "s' = s\<lparr>resultChan := close_chan (resultChan s)\<rparr>"
  | (Collect) result rest where "a = Collect" "\<not> returned s"
      "buf (resultChan s) = result # rest"
      "s' = s\<lparr>resultChan := (resultChan s)\<lparr>buf := rest\<rparr>,
               completed := completed s + 1,
               results := results s @ [result],
               user := (case cb of
                          None \<Rightarrow> user s
                        | Some f \<Rightarrow> f (completed s + 1) (int (length jobs)) result (user s))\<rparr>"
  | (Return) "a = Return" "\<not> returned s" "at_end (resultChan s)" "s' = s\<lparr>returned := True\<rparr>"
proof (cases a)
  case (Cancel err) with assms that(1) show ?thesis by (auto split: if_splits)
next
  case Tick with assms that(2) show ?thesis by (auto split: if_splits)
next
  case SenderSend with assms that(3) show ?thesis
    by (auto split: option.splits list.splits if_splits)
next
  case SenderCancel with assms that(4) show ?thesis
    by (auto split: option.splits list.splits if_splits)
next
  case SenderClose with assms that(5) show ?thesis
    by (auto split: option.splits list.splits if_splits)
next
  case LimiterRecv with assms that(6) show ?thesis
    by (auto split: list.splits if_splits)
next
  case LimiterEnd with assms that(7) show ?thesis by (auto split: if_splits)
next
  case LimiterCancel with assms that(8) show ?thesis
    by (auto split: limiter_pc.splits if_splits)
next
  case LimiterTick with assms that(9) show ?thesis
    by (auto split: limiter_pc.splits if_splits)
next
  case LimiterSend with assms that(10) show ?thesis
    by (auto split: limiter_pc.splits if_splits)
next
  case (WorkerRecv i) with assms that(11) show ?thesis
    by (auto split: list.splits if_splits)
next
  case (WorkerEnd i) with assms that(12) show ?thesis by (auto split: if_splits)
next
  case (WorkerCheck i) with assms that(13,14) show ?thesis
    by (auto split: worker_pc.splits option.splits if_splits)
next
  case (WorkerProcess i w1 w2) with assms that(15) show ?thesis
    by (auto split: worker_pc.splits if_splits)
next
  case (WorkerSend i) with assms that(16,17) show ?thesis
    by (auto split: worker_pc.splits if_splits)
next
  case CloseResults with assms that(18) show ?thesis by (auto split: if_splits)
next
  case Collect with assms that(19) show ?thesis
    by (auto split: list.splits if_splits)
next
  case Return with assms that(20) show ?thesis by (auto split: if_splits)
qed

lemma in_set_update: "x \<in> set (ws[i := w]) \<Longrightarrow> x = w \<or> x \<in> set ws"
  using set_update_subset_insert [of ws i w] by auto

lemma list_all_update:
  "list_all P ws \<Longrightarrow> P w \<Longrightarrow> list_all P (ws[i := w])"
  by (auto simp: list_all_iff dest: in_set_update)

lemma all_done_nth:
  "list_all (\<lambda>w. w = W_Done) ws \<Longrightarrow> i < length ws \<Longrightarrow> ws ! i = W_Done"
  by (simp add: list_all_length)

lemma no_abort_nth:
  "list_all (\<lambda>w. \<forall>r. w \<noteq> W_Abort r) ws \<Longrightarrow> i < length ws \<Longrightarrow> ws ! i \<noteq> W_Abort r"
  by (simp add: list_all_length)


section \<open>The shape of the reachable states\<close>

lemma step_caps:
  assumes "step p cb jobs a s = Some s'"
  shows "cap (jobChan s') = cap (jobChan s) \<and> cap (rateLimitedJobs s') = cap (rateLimitedJobs s)
     \<and> cap (resultChan s') = cap (resultChan s) \<and> length (workers s') = length (workers s)"
  using assms by (cases rule: step_cases) (simp_all add: chan_defs)

lemma step_closed_jobChan:
  assumes "step p cb jobs a s = Some s'" and "closed (jobChan s) = (sender s = None)"
  shows "closed (jobChan s') = (sender s' = None)"
  using assms by (cases rule: step_cases) (simp_all add: chan_defs)

lemma step_closed_rateLimitedJobs:
  assumes "step p cb jobs a s = Some s'" and "closed (rateLimitedJobs s) = (limiter s = L_Done)"
  shows "closed (rateLimitedJobs s') = (limiter s' = L_Done)"
  using assms by (cases rule: step_cases) (simp_all add: chan_defs)

lemma step_closed_resultChan:
  assumes "step p cb jobs a s = Some s'"
    and "closed (resultChan s) \<longrightarrow> list_all (\<lambda>w. w = W_Done) (workers s)"
  shows "closed (resultChan s') \<longrightarrow> list_all (\<lambda>w. w = W_Done) (workers s')"
  using assms by (cases rule: step_cases) (auto simp: chan_defs list_all_update dest: all_done_nth)

lemma step_returned:
  assumes "step p cb jobs a s = Some s'" and "returned s \<longrightarrow> at_end (resultChan s)"
  shows "returned s' \<longrightarrow> at_end (resultChan s')"
  using assms by (cases rule: step_cases) (auto simp: chan_defs)

lemma step_no_abort:
  assumes "step p cb jobs a s = Some s'"
    and "ctx_err s = None \<longrightarrow> list_all (\<lambda>w. \<forall>r. w \<noteq> W_Abort r) (workers s)"
  shows "ctx_err s' = None \<longrightarrow> list_all (\<lambda>w. \<forall>r. w \<noteq> W_Abort r) (workers s')"
  using assms by (cases rule: step_cases) (auto simp: list_all_update)

lemma shape_init: "shape p jobs (init p jobs u)"
  by (auto simp: shape_def init_def make_chan_def at_end_def list_all_iff)

lemma shape_step:
  assumes "step p cb jobs a s = Some s'" and "shape p jobs s"
  shows "shape p jobs s'"
  using assms(2) step_caps [OF assms(1)] step_closed_jobChan [OF assms(1)]
    step_closed_rateLimitedJobs [OF assms(1)] step_closed_resultChan [OF assms(1)]
    step_returned [OF assms(1)] step_no_abort [OF assms(1)]
  unfolding shape_def by simp

section \<open>No job is lost or doubled\<close>

lemma mset_held_update:
  "i < length ws \<Longrightarrow>
   mset (concat (map f (ws[i := w]))) + mset (f (ws ! i)) = mset (concat (map f ws)) + mset (f w)"
proof (induction ws arbitrary: i)
  case Nil
  then show ?case by simp
next
  case (Cons a ws)
  show ?case
  proof (cases i)
    case 0
    then show ?thesis by simp
  next
    case (Suc k)
    with Cons.prems have "k < length ws" by simp
    from Cons.IH [OF this] Suc show ?thesis by (simp add: ac_simps)
  qed
qed

lemma held_update_same:
  "i < length ws \<Longrightarrow> held_worker w = held_worker (ws ! i) \<Longrightarrow>
   mset (concat (map held_worker (ws[i := w]))) = mset (concat (map held_worker ws))"
  using mset_held_update [of i ws held_worker w] by simp

lemma held_update_take:
  "i < length ws \<Longrightarrow> held_worker (ws ! i) = [] \<Longrightarrow>
   mset (concat (map held_worker (ws[i := w]))) = mset (concat (map held_worker ws)) + mset (held_worker w)"
  using mset_held_update [of i ws held_worker w] by simp

lemma held_update_give:
  "i < length ws \<Longrightarrow> held_worker w = [] \<Longrightarrow>
   mset (concat (map held_worker (ws[i := w]))) + mset (held_worker (ws ! i)) = mset (concat (map held_worker ws))"
  using mset_held_update [of i ws held_worker w] by simp

text \<open>Every step keeps the jobs in flight, unless it is one that only a cancelled context allows.\<close>

lemma in_flight_step:
  assumes "step p cb jobs a s = Some s'" and "ctx_err s' = None"
  shows "in_flight s' = in_flight s"
  using assms
proof (cases rule: step_cases)
  case (WorkerRecv i job rest)
  then show ?thesis by (simp add: in_flight_def remaining_def held_update_take)
next
  case (WorkerEnd i)
  then show ?thesis by (simp add: in_flight_def remaining_def held_update_same)
next
  case (WorkerAbort i job err)
  then show ?thesis using assms(2) by simp
next
  case (WorkerStart i job)
  then show ?thesis by (simp add: in_flight_def remaining_def held_update_same)
next
  case (WorkerProcess i w1 w2 job)
  then show ?thesis by (simp add: in_flight_def remaining_def held_update_same job_processJob)
next
  case (WorkerEmit i result)
  then show ?thesis
    using held_update_give [of i "workers s" W_Range]
    by (simp add: in_flight_def remaining_def chan_defs)
next
  case (WorkerLast i result)
  then show ?thesis
    using held_update_give [of i "workers s" W_Done]
    by (simp add: in_flight_def remaining_def chan_defs)
qed (use assms(2) in \<open>simp_all add: in_flight_def remaining_def chan_defs\<close>)

lemma in_flight_le:
  assumes "step p cb jobs a s = Some s'"
  shows "in_flight s' \<subseteq># in_flight s"
  using assms
proof (cases rule: step_cases)
  case (WorkerRecv i job rest)
  then show ?thesis by (simp add: in_flight_def remaining_def held_update_take)
next
  case (WorkerEnd i)
  then show ?thesis by (simp add: in_flight_def remaining_def held_update_same)
next
  case (WorkerAbort i job err)
  then show ?thesis by (simp add: in_flight_def remaining_def held_update_same)
next
  case (WorkerStart i job)
  then show ?thesis by (simp add: in_flight_def remaining_def held_update_same)
next
  case (WorkerProcess i w1 w2 job)
  then show ?thesis by (simp add: in_flight_def remaining_def held_update_same job_processJob)
next
  case (WorkerEmit i result)
  then show ?thesis
    using held_update_give [of i "workers s" W_Range]
    by (simp add: in_flight_def remaining_def chan_defs)
next
  case (WorkerLast i result)
  then show ?thesis
    using held_update_give [of i "workers s" W_Done]
    by (simp add: in_flight_def remaining_def chan_defs)
qed (simp_all add: in_flight_def remaining_def chan_defs)

lemma in_flight_run:
  "run p cb jobs schedule s = Some s' \<Longrightarrow> in_flight s' \<subseteq># in_flight s"
proof (induction schedule arbitrary: s)
  case Nil
  then show ?case by simp
next
  case (Cons a schedule)
  from Cons.prems obtain t where t: "step p cb jobs a s = Some t"
    and r: "run p cb jobs schedule t = Some s'"
    by (auto split: option.splits)
  from in_flight_le [OF t] Cons.IH [OF r] show ?case by (rule subset_mset.order_trans [rotated])
qed

lemma in_flight_init: "in_flight (init p jobs u) = mset jobs"
  by (simp add: in_flight_def init_def make_chan_def remaining_def)

lemma held_size:
  "i < length ws \<Longrightarrow> length (held_worker (ws ! i)) \<le> length (concat (map held_worker ws))"
proof -
  assume "i < length ws"
  from mset_held_update [OF this, of held_worker W_Done]
  have "size (mset (concat (map held_worker (ws[i := W_Done]))) + mset (held_worker (ws ! i)))
        = size (mset (concat (map held_worker ws)))" by simp
  then show ?thesis by (simp del: length_concat)
qed

text \<open>A worker that has a Result to send finds room in \<open>resultChan\<close>.\<close>

lemma result_send_free:
  assumes sh: "shape p jobs s" and le: "in_flight s \<subseteq># mset jobs"
    and i: "i < length (workers s)"
    and w: "workers s ! i = W_Emit r \<or> workers s ! i = W_Abort r"
  shows "can_send (resultChan s)"
proof -
  from w have h: "length (held_worker (workers s ! i)) = 1" by auto
  have "\<not> closed (resultChan s)"
  proof
    assume "closed (resultChan s)"
    with sh have "list_all (\<lambda>w. w = W_Done) (workers s)" by (simp add: shape_def)
    from all_done_nth [OF this i] w show False by simp
  qed
  moreover from size_mset_mono [OF le]
  have "length (concat (map held_worker (workers s))) + length (buf (resultChan s)) \<le> length jobs"
    by (simp add: in_flight_def del: length_concat)
  with held_size [OF i] h have "length (buf (resultChan s)) < length jobs" by simp
  moreover from sh have "cap (resultChan s) = length jobs" by (simp add: shape_def)
  ultimately show ?thesis by (simp add: can_send_def)
qed

lemma flow_init: "flow jobs (init p jobs u)"
  by (simp add: flow_def init_def make_chan_def in_flight_def remaining_def)

lemma step_ctx_None:
  assumes "step p cb jobs a s = Some s'" and "ctx_err s' = None"
  shows "ctx_err s = None"
  using assms by (cases rule: step_cases) simp_all

lemma step_limiter_done:
  assumes "step p cb jobs a s = Some s'" and "ctx_err s' = None"
    and "limiter s = L_Done \<longrightarrow> at_end (jobChan s)"
    and "closed (jobChan s) = (sender s = None)"
  shows "limiter s' = L_Done \<longrightarrow> at_end (jobChan s')"
  using assms by (cases rule: step_cases) (auto simp: chan_defs)

lemma step_worker_done:
  assumes "step p cb jobs a s = Some s'" and "ctx_err s' = None"
    and "W_Done \<in> set (workers s) \<longrightarrow> at_end (rateLimitedJobs s)"
    and "list_all (\<lambda>w. \<forall>r. w \<noteq> W_Abort r) (workers s)"
  shows "W_Done \<in> set (workers s') \<longrightarrow> at_end (rateLimitedJobs s')"
  using assms
  by (cases rule: step_cases) (auto simp: chan_defs dest: in_set_update no_abort_nth)

lemma step_sequence:
  assumes "step p cb jobs a s = Some s'" and "ctx_err s' = None"
  shows "admitted s' @ held_limiter (limiter s') @ buf (jobChan s') @ remaining s'
       = admitted s @ held_limiter (limiter s) @ buf (jobChan s) @ remaining s"
  using assms by (cases rule: step_cases) (simp_all add: chan_defs remaining_def)

lemma flow_step:
  assumes "step p cb jobs a s = Some s'" and "shape p jobs s" and "flow jobs s"
  shows "flow jobs s'"
proof (cases "ctx_err s'")
  case None
  note st = assms(1)
  from step_ctx_None [OF st None] have c: "ctx_err s = None" .
  from assms(2) c have na: "list_all (\<lambda>w. \<forall>r. w \<noteq> W_Abort r) (workers s)"
    and cj: "closed (jobChan s) = (sender s = None)"
    by (simp_all add: shape_def)
  from assms(3) c have f: "limiter s = L_Done \<longrightarrow> at_end (jobChan s)"
    "W_Done \<in> set (workers s) \<longrightarrow> at_end (rateLimitedJobs s)"
    "in_flight s = mset jobs"
    "admitted s @ held_limiter (limiter s) @ buf (jobChan s) @ remaining s = jobs"
    by (simp_all add: flow_def)
  show ?thesis
    using step_limiter_done [OF st None f(1) cj] step_worker_done [OF st None f(2) na]
      in_flight_step [OF st None] step_sequence [OF st None] f(3,4)
    by (simp add: flow_def)
next
  case (Some e)
  then show ?thesis by (simp add: flow_def)
qed

section \<open>The order of admission\<close>

lemma in_order_init: "in_order jobs (init p jobs u)"
  by (simp add: in_order_def init_def make_chan_def remaining_def)

lemma prefix_chop: "prefix (a @ h @ b @ r) jobs \<Longrightarrow> prefix (a @ h @ b) jobs"
  using append_prefixD [of "a @ h @ b" r jobs] by simp

lemma prefix_chop2: "prefix (a @ [j] @ b @ r) jobs \<Longrightarrow> prefix (a @ [j]) jobs"
  using append_prefixD [of "a @ [j]" "b @ r" jobs] by simp

lemma in_order_step:
  assumes "step p cb jobs a s = Some s'" and "in_order jobs s"
  shows "in_order jobs s'"
  using assms
proof (cases rule: step_cases)
  case (SenderCancel job rest)
  then show ?thesis using assms(2) prefix_chop [of "admitted s" "held_limiter (limiter s)" "buf (jobChan s)" "job # rest" jobs]
    by (simp add: in_order_def chan_defs remaining_def)
next
  case (LimiterSend job)
  then show ?thesis using assms(2) prefix_chop2 [of "admitted s" job "buf (jobChan s)" "remaining s" jobs]
    by (simp add: in_order_def chan_defs remaining_def)
qed (use assms(2) in \<open>simp_all add: in_order_def chan_defs remaining_def\<close>)

section \<open>Invariants along a schedule\<close>

lemma invariant_init: "invariant p jobs (init p jobs u)"
  by (simp add: invariant_def shape_init flow_init in_order_init)

lemma invariant_step:
  "step p cb jobs a s = Some s' \<Longrightarrow> invariant p jobs s \<Longrightarrow> invariant p jobs s'"
  by (simp add: invariant_def shape_step flow_step in_order_step)

lemma invariant_run:
  "run p cb jobs schedule s = Some s' \<Longrightarrow> invariant p jobs s \<Longrightarrow> invariant p jobs s'"
proof (induction schedule arbitrary: s)
  case Nil
  then show ?case by simp
next
  case (Cons a schedule)
  from Cons.prems(1) obtain t where t: "step p cb jobs a s = Some t"
    and r: "run p cb jobs schedule t = Some s'"
    by (auto split: option.splits)
  from invariant_step [OF t Cons.prems(2)] Cons.IH [OF r] show ?case by simp
qed







section \<open>Every schedule ends\<close>







section \<open>The rate gate\<close>







section \<open>A cancelled worker\<close>

lemma emitted_grow:
  assumes "A \<subseteq># B" and "add_mset r B \<subseteq># C"
  shows "add_mset r A \<subseteq># C"
proof -
  from assms(1) have "add_mset r A \<subseteq># add_mset r B" by simp
  from this assms(2) show ?thesis by (rule subset_mset.order_trans)
qed

lemma emitted_step:
  assumes "step p cb jobs a s = Some s'"
  shows "mset (emitted s) \<subseteq># mset (emitted s')"
  using assms by (cases rule: step_cases) (simp_all add: emitted_def chan_defs)

lemma done_step:
  assumes "step p cb jobs a s = Some s'" and "i < length (workers s)"
    and "workers s ! i = W_Done"
  shows "workers s' ! i = W_Done \<and> \<not> by_worker i a"
  using assms by (cases rule: step_cases) (auto simp: nth_list_update)

lemma done_run:
  "run p cb jobs schedule s = Some s' \<Longrightarrow> i < length (workers s) \<Longrightarrow>
   workers s ! i = W_Done \<Longrightarrow>
   workers s' ! i = W_Done \<and> filter (by_worker i) schedule = []
   \<and> mset (emitted s) \<subseteq># mset (emitted s')"
proof (induction schedule arbitrary: s)
  case Nil
  then show ?case by simp
next
  case (Cons a schedule)
  from Cons.prems(1) obtain t where t: "step p cb jobs a s = Some t"
    and r: "run p cb jobs schedule t = Some s'"
    by (auto split: option.splits)
  from done_step [OF t Cons.prems(2,3)] have d: "workers t ! i = W_Done" "\<not> by_worker i a"
    by simp_all
  from step_caps [OF t] Cons.prems(2) have "i < length (workers t)" by simp
  from Cons.IH [OF r this d(1)] d(2) emitted_step [OF t] show ?case
    by (auto intro: subset_mset.order_trans)
qed

lemma abort_step:
  assumes "step p cb jobs a s = Some s'" and "i < length (workers s)"
    and "workers s ! i = W_Abort r"
  shows "(workers s' ! i = W_Abort r \<and> \<not> by_worker i a)
       \<or> (workers s' ! i = W_Done \<and> a = WorkerSend i
            \<and> mset (emitted s') = mset (emitted s) + {#r#})"
  using assms by (cases rule: step_cases) (auto simp: nth_list_update emitted_def chan_defs)

lemma abort_run:
  "run p cb jobs schedule s = Some s' \<Longrightarrow> i < length (workers s) \<Longrightarrow>
   workers s ! i = W_Abort r \<Longrightarrow>
   (workers s' ! i = W_Abort r \<and> filter (by_worker i) schedule = [])
   \<or> (workers s' ! i = W_Done \<and> filter (by_worker i) schedule = [WorkerSend i]
        \<and> mset (emitted s) + {#r#} \<subseteq># mset (emitted s'))"
proof (induction schedule arbitrary: s)
  case Nil
  then show ?case by simp
next
  case (Cons a schedule)
  from Cons.prems(1) obtain t where t: "step p cb jobs a s = Some t"
    and r: "run p cb jobs schedule t = Some s'"
    by (auto split: option.splits)
  from step_caps [OF t] Cons.prems(2) have it: "i < length (workers t)" by simp
  from abort_step [OF t Cons.prems(2,3)] show ?case
  proof
    assume "workers t ! i = W_Abort r \<and> \<not> by_worker i a"
    then have w: "workers t ! i = W_Abort r" and a: "\<not> by_worker i a" by simp_all
    from Cons.IH [OF r it w] a emitted_step [OF t] show ?thesis
      by (auto intro: emitted_grow)
  next
    assume "workers t ! i = W_Done \<and> a = WorkerSend i
              \<and> mset (emitted t) = mset (emitted s) + {#r#}"
    then have w: "workers t ! i = W_Done" and a: "a = WorkerSend i"
      and e: "mset (emitted t) = mset (emitted s) + {#r#}" by simp_all
    from done_run [OF r it w] a e show ?thesis by simp
  qed
qed

lemma check_step:
  assumes "step p cb jobs a s = Some s'" and "i < length (workers s)"
    and "workers s ! i = W_Check job" and "ctx_err s = Some err"
  shows "ctx_err s' = Some err
       \<and> ((workers s' ! i = W_Check job \<and> \<not> by_worker i a)
          \<or> (workers s' ! i = W_Abort \<lparr>Job = job, Article = None, Analysis = None, Error = Some err\<rparr>
               \<and> a = WorkerCheck i))"
  using assms by (cases rule: step_cases) (auto simp: nth_list_update)

lemma check_run:
  "run p cb jobs schedule s = Some s' \<Longrightarrow> i < length (workers s) \<Longrightarrow>
   workers s ! i = W_Check job \<Longrightarrow> ctx_err s = Some err \<Longrightarrow>
   (workers s' ! i = W_Check job \<and> filter (by_worker i) schedule = [])
   \<or> (workers s' ! i = W_Abort \<lparr>Job = job, Article = None, Analysis = None, Error = Some err\<rparr>
        \<and> filter (by_worker i) schedule = [WorkerCheck i])
   \<or> (workers s' ! i = W_Done
        \<and> filter (by_worker i) schedule = [WorkerCheck i, WorkerSend i]
        \<and> mset (emitted s) + {#\<lparr>Job = job, Article = None, Analysis = None, Error = Some err\<rparr>#}
            \<subseteq># mset (emitted s'))"
proof (induction schedule arbitrary: s)
  case Nil
  then show ?case by simp
next
  case (Cons a schedule)
  let ?r = "\<lparr>Job = job, Article = None, Analysis = None, Error = Some err\<rparr>"
  from Cons.prems(1) obtain t where t: "step p cb jobs a s = Some t"
    and r: "run p cb jobs schedule t = Some s'"
    by (auto split: option.splits)
  from step_caps [OF t] Cons.prems(2) have it: "i < length (workers t)" by simp
  from check_step [OF t Cons.prems(2,3,4)] have c: "ctx_err t = Some err"
    and d: "(workers t ! i = W_Check job \<and> \<not> by_worker i a)
          \<or> (workers t ! i = W_Abort ?r \<and> a = WorkerCheck i)" by simp_all
  from d show ?case
  proof
    assume "workers t ! i = W_Check job \<and> \<not> by_worker i a"
    then have w: "workers t ! i = W_Check job" and a: "\<not> by_worker i a" by simp_all
    from Cons.IH [OF r it w c] a emitted_step [OF t] show ?thesis
      by (auto intro: emitted_grow)
  next
    assume "workers t ! i = W_Abort ?r \<and> a = WorkerCheck i"
    then have w: "workers t ! i = W_Abort ?r" and a: "a = WorkerCheck i" by simp_all
    from abort_run [OF r it w] a emitted_step [OF t] show ?thesis
      by (auto intro: emitted_grow)
  qed
qed

section \<open>The callback\<close>

lemma step_nil_callback:
  "step p None jobs a (s\<lparr>user := u\<rparr>)
   = map_option (\<lambda>t. t\<lparr>user := u\<rparr>) (step p cb jobs a s)"
  by (cases a)
     (simp_all split: option.splits list.splits limiter_pc.splits worker_pc.splits)

lemma run_nil_callback:
  "run p None jobs schedule (s\<lparr>user := u\<rparr>)
   = map_option (\<lambda>t. t\<lparr>user := u\<rparr>) (run p cb jobs schedule s)"
proof (induction schedule arbitrary: s)
  case Nil
  show ?case by simp
next
  case (Cons a schedule)
  show ?case
  proof (cases "step p cb jobs a s")
    case None
    with step_nil_callback [where s = s and u = u and cb = cb and a = a] show ?thesis by simp
  next
    case (Some t)
    with step_nil_callback [where s = s and u = u and cb = cb and a = a] Cons.IH [of t] show ?thesis by simp
  qed
qed

section \<open>The claims about Process\<close>

lemmas example_defs =
  example_processor_def example_job_def example_result_def example_schedule_def
  example_limits_def Process_def init_def make_chan_def chan_defs processJob_def Errorf_w_def

lemma example_returns:
  "Process example_limits example_processor cb [example_job] u example_schedule
   = Returns [example_result]
       (case cb of None \<Rightarrow> u | Some f \<Rightarrow> f 1 1 example_result u)"
  by (cases cb) (simp_all add: example_defs)

text \<open>
  Where the conditions on the processor are needed. Without workers the call returns at
  once with no Result, whatever the jobs; an interval that is not positive makes
  \<open>time.NewTicker\<close> panic; \<open>New\<close> computes the interval 0 for every rate above
  \<open>10^9\<close> per second; and more workers than \<open>make\<close> gives a channel room for make
  the call panic.
\<close>

lemma Process_without_workers:
  assumes "jobs \<noteq> []" and "length jobs \<le> job_chan_max rt"
    and "length jobs \<le> result_chan_max rt" and "0 < rateLimitTick p"
    and "maxWorkers p = 0"
  shows "Process rt p cb jobs u [CloseResults, Return] = Returns [] u"
  using assms by (simp add: Process_def init_def make_chan_def chan_defs)

lemma Process_without_interval:
  assumes "jobs \<noteq> []" and "length jobs \<le> job_chan_max rt"
    and "length jobs \<le> result_chan_max rt" and "rateLimitTick p \<le> 0"
  shows "Process rt p cb jobs u schedule = Panics ''non-positive interval for NewTicker''"
  using assms by (simp add: Process_def)

lemma Process_too_many_workers:
  assumes "jobs \<noteq> []" and "int (job_chan_max rt) < maxWorkers p"
  shows "\<exists>msg. Process rt p cb jobs u schedule = Panics msg"
  using assms by (simp add: Process_def)

lemma New_rate_too_high:
  assumes "10 ^ 9 + 1 \<le> rateLimit" and "rateLimit < 2 ^ 63"
  shows "New fdiv ovf f provider ints n rateLimit
         = Inr \<lparr>fetcher = f, llmProvider = provider, interests = ints, maxWorkers = n,
                rateLimitTick = 0\<rparr>"
proof -
  from assms(1) have "10 ^ 9 + 1 \<le> \<lfloor>rateLimit\<rfloor>" by (simp add: le_floor_iff)
  then have "Second div \<lfloor>rateLimit\<rfloor> = 0" by (simp add: Second_def div_pos_pos_trivial)
  moreover from assms(1) have "1 \<le> rateLimit" by simp
  ultimately show ?thesis using New_tick [OF _ assms(2), of fdiv ovf f provider ints n] by simp
qed





text \<open>
  C6. Let worker \<open>i\<close> stand at its cancellation check with the job it took, in a state
  the call can reach, and let the context be done with the error \<open>err\<close>. The check can
  happen. Whatever the schedule from there on, the steps worker \<open>i\<close> takes in it are
  its check and then its send, in this order and nothing else: it receives no further
  job and does not run \<open>processJob\<close>. After the check it holds the Result with this job,
  no Article, no AnalysisResult and the error \<open>err\<close>, and its send is not blocked; after
  the send it has returned and \<open>resultChan\<close> has received that Result once more.
\<close>

theorem worker_cancelled:
  assumes reach: "run p cb jobs before (init p jobs u) = Some s"
    and i: "i < length (workers s)" and w: "workers s ! i = W_Check job"
    and c: "ctx_err s = Some err"
    and cont: "run p cb jobs schedule s = Some s'"
  shows "step p cb jobs (WorkerCheck i) s \<noteq> None
       \<and> WorkerRecv i \<notin> set schedule
       \<and> (\<forall>w1 w2. WorkerProcess i w1 w2 \<notin> set schedule)
       \<and> (filter (by_worker i) schedule = [] \<and> workers s' ! i = W_Check job
          \<or> filter (by_worker i) schedule = [WorkerCheck i]
              \<and> workers s' ! i = W_Abort (cancel_result job err)
              \<and> step p cb jobs (WorkerSend i) s' \<noteq> None
          \<or> filter (by_worker i) schedule = [WorkerCheck i, WorkerSend i]
              \<and> workers s' ! i = W_Done
              \<and> mset (emitted s) + {#cancel_result job err#} \<subseteq># mset (emitted s'))"
proof -
  have chk: "step p cb jobs (WorkerCheck i) s \<noteq> None" using i w c by simp
  from check_run [OF cont i w c]
  have d: "filter (by_worker i) schedule = [] \<and> workers s' ! i = W_Check job
          \<or> filter (by_worker i) schedule = [WorkerCheck i]
              \<and> workers s' ! i = W_Abort (cancel_result job err)
          \<or> filter (by_worker i) schedule = [WorkerCheck i, WorkerSend i]
              \<and> workers s' ! i = W_Done
              \<and> mset (emitted s) + {#cancel_result job err#} \<subseteq># mset (emitted s')"
    by (auto simp: cancel_result_def)
  define fl where "fl = filter (by_worker i) schedule"
  from d have d': "fl = [] \<or> fl = [WorkerCheck i] \<or> fl = [WorkerCheck i, WorkerSend i]"
    unfolding fl_def by blast
  have mem: "a \<in> set fl" if "a \<in> set schedule" and "by_worker i a" for a
    using that by (simp add: fl_def)
  have nr: "WorkerRecv i \<notin> set schedule"
  proof
    assume "WorkerRecv i \<in> set schedule"
    from mem [OF this] have "WorkerRecv i \<in> set fl" by simp
    with d' show False by auto
  qed
  have np: "WorkerProcess i w1 w2 \<notin> set schedule" for w1 w2
  proof
    assume "WorkerProcess i w1 w2 \<in> set schedule"
    from mem [OF this] have "WorkerProcess i w1 w2 \<in> set fl" by simp
    with d' show False by auto
  qed
  have snd: "step p cb jobs (WorkerSend i) s' \<noteq> None"
    if a: "workers s' ! i = W_Abort (cancel_result job err)"
  proof -
    from invariant_run [OF reach invariant_init] have "invariant p jobs s" .
    from invariant_run [OF cont this] have sh: "shape p jobs s'" by (simp add: invariant_def)
    from in_flight_run [OF reach] have "in_flight s \<subseteq># mset jobs" by (simp add: in_flight_init)
    with in_flight_run [OF cont] have le: "in_flight s' \<subseteq># mset jobs"
      by (rule subset_mset.order_trans)
    from sh i have i': "i < length (workers s')" 
      using invariant_run [OF reach invariant_init] by (simp add: shape_def invariant_def)
    from result_send_free [OF sh le i'] a have "can_send (resultChan s')" by simp
    with i' a show ?thesis by simp
  qed
  from chk nr np d snd show ?thesis by blast
qed

theorem worker_cancelled_witness:
  "run example_processor None [example_job] before_check (init example_processor [example_job] ())
     = Some checking_state
   \<and> workers checking_state ! 0 = W_Check example_job
   \<and> ctx_err checking_state = Some Canceled
   \<and> run example_processor None [example_job] [WorkerCheck 0, WorkerSend 0] checking_state
     = Some aborted_state
   \<and> workers aborted_state ! 0 = W_Done
   \<and> emitted aborted_state = [cancel_result example_job Canceled]
   \<and> mset (emitted checking_state) + {#cancel_result example_job Canceled#}
        \<subseteq># mset (emitted aborted_state)"
proof -
  have r1: "run example_processor None [example_job] before_check
              (init example_processor [example_job] ()) = Some checking_state"
    by (simp add: before_check_def checking_state_def example_defs)
  have r2: "run example_processor None [example_job] [WorkerCheck 0, WorkerSend 0] checking_state
              = Some aborted_state"
    by (simp add: aborted_state_def checking_state_def cancel_result_def chan_defs)
  have i: "0 < length (workers checking_state)"
    and w: "workers checking_state ! 0 = W_Check example_job"
    and c: "ctx_err checking_state = Some Canceled"
    by (simp_all add: checking_state_def)
  have e: "emitted aborted_state = [cancel_result example_job Canceled]"
    and d: "workers aborted_state ! 0 = W_Done"
    by (simp_all add: emitted_def aborted_state_def checking_state_def)
  from worker_cancelled [OF r1 i w c r2] d
  have "mset (emitted checking_state) + {#cancel_result example_job Canceled#}
        \<subseteq># mset (emitted aborted_state)" by simp
  with r1 r2 w c d e show ?thesis by simp
qed




text \<open>
  C8. For the empty job list \<open>Process\<close> returns the empty result list whatever the
  schedule, and leaves the callback's world as it was: the callback is not invoked.
\<close>

theorem Process_no_jobs: "Process rt p cb [] u schedule = Returns [] u"
  by (simp add: Process_def)

theorem Process_no_jobs_witness:
  "Process example_limits example_processor (Some (\<lambda>c t r u. u @ [(c, t)])) [] [] example_schedule
   = Returns [] []"
  using Process_no_jobs [of example_limits example_processor
      "Some (\<lambda>c t r u. u @ [(c, t)])" "[]" example_schedule]
  by simp




text \<open>
  C10. Under every schedule, \<open>Process\<close> with a nil callback comes to what it comes to
  with a callback \<open>f\<close>, the callback's world apart: it returns the same results, and
  with the nil callback that world stays as it was.
\<close>

theorem Process_nil_callback:
  "Process rt p None jobs u schedule =
     (case Process rt p (Some f) jobs u schedule of
        Returns rs u' \<Rightarrow> Returns rs u
      | Panics msg \<Rightarrow> Panics msg
      | Running s \<Rightarrow> Running (s\<lparr>user := u\<rparr>)
      | NoSchedule \<Rightarrow> NoSchedule)"
proof -
  have "init p jobs u = (init p jobs u)\<lparr>user := u\<rparr>" by (simp add: init_def)
  then have "run p None jobs schedule (init p jobs u)
      = map_option (\<lambda>t. t\<lparr>user := u\<rparr>) (run p (Some f) jobs schedule (init p jobs u))"
    using run_nil_callback [where s = "init p jobs u" and u = u and cb = "Some f"
        and schedule = schedule and p = p and jobs = jobs] by simp
  then show ?thesis by (simp add: Process_def split: option.splits)
qed

theorem Process_nil_callback_witness:
  "Process example_limits example_processor (Some (\<lambda>c t r u. u @ [(c, t)])) [example_job] [] example_schedule
     = Returns [example_result] [(1, 1)]
   \<and> Process example_limits example_processor None [example_job] ([] :: (int \<times> int) list) example_schedule
     = Returns [example_result] []"
proof -
  have r: "Process example_limits example_processor (Some (\<lambda>c t r u. u @ [(c, t)])) [example_job] []
             example_schedule = Returns [example_result] [(1, 1)]"
    using example_returns [of "Some (\<lambda>c t r u. u @ [(c, t)])" "[]"] by simp
  from Process_nil_callback [of example_limits example_processor "[example_job]" "[]" example_schedule
      "\<lambda>c t r u. u @ [(c, t)]"] r
  show ?thesis by simp
qed

end
